theory Spec2Isabelle
  imports Main "HOL-Library.Word" "HOL-Library.Sublist"
begin

section \<open>JavaScript strings\<close>

text \<open>
  A JavaScript string is a sequence of UTF-16 code units. The regular expressions of the
  program carry no \<open>u\<close> flag, so they work on code units, one at a time.
\<close>

type_synonym code_unit = "16 word"
type_synonym jsstring = "code_unit list"

definition js :: "string \<Rightarrow> jsstring" where
  "js s = map of_char s"

text \<open>The character class \<open>[\/\\:*?"<>|]\<close> of the first replacement.\<close>

definition is_illegal :: "code_unit \<Rightarrow> bool" where
  "is_illegal c \<longleftrightarrow>
     c = 0x2F \<or> c = 0x5C \<or> c = 0x3A \<or> c = 0x2A \<or> c = 0x3F \<or>
     c = 0x22 \<or> c = 0x3C \<or> c = 0x3E \<or> c = 0x7C"

text \<open>
  The class \<open>\s\<close>: the white space and line terminator code points of ECMAScript
  (TAB, LF, VT, FF, CR, SP, NBSP, U+1680, U+2000 to U+200A, U+2028, U+2029, U+202F,
  U+205F, U+3000, U+FEFF).
\<close>

definition is_space :: "code_unit \<Rightarrow> bool" where
  "is_space c \<longleftrightarrow>
     c = 0x09 \<or> c = 0x0A \<or> c = 0x0B \<or> c = 0x0C \<or> c = 0x0D \<or> c = 0x20 \<or>
     c = 0xA0 \<or> c = 0x1680 \<or> (0x2000 \<le> c \<and> c \<le> 0x200A) \<or>
     c = 0x2028 \<or> c = 0x2029 \<or> c = 0x202F \<or> c = 0x205F \<or> c = 0x3000 \<or>
     c = 0xFEFF"

text \<open>The class \<open>[^\x00-\x7F]\<close>.\<close>

definition non_ascii :: "code_unit \<Rightarrow> bool" where
  "non_ascii c \<longleftrightarrow> \<not> (0x00 \<le> c \<and> c \<le> 0x7F)"

text \<open>
  \<open>s.replace(/[class]/g, f)\<close>: every code unit of the class is replaced by what the
  replacement yields for it, the others are kept. A replacement string is the constant
  function.
\<close>

definition replace_class :: "(code_unit \<Rightarrow> bool) \<Rightarrow> (code_unit \<Rightarrow> jsstring) \<Rightarrow> jsstring \<Rightarrow> jsstring" where
  "replace_class P f s = concat (map (\<lambda>c. if P c then f c else [c]) s)"

text \<open>
  \<open>s.replace(/[class]+/g, rep)\<close>: scanning from the left, a maximal run of code units of
  the class is replaced by one copy of \<open>rep\<close>.
\<close>

function replace_runs :: "(code_unit \<Rightarrow> bool) \<Rightarrow> jsstring \<Rightarrow> jsstring \<Rightarrow> jsstring" where
  "replace_runs P rep [] = []"
| "replace_runs P rep (c # s) =
     (if P c then rep @ replace_runs P rep (dropWhile P s)
      else c # replace_runs P rep s)"
  by pat_completeness auto
termination
  by (relation "measure (\<lambda>(P, rep, s). length s)")
     (auto simp: length_dropWhile_le less_Suc_eq_le)

definition substring :: "nat \<Rightarrow> nat \<Rightarrow> jsstring \<Rightarrow> jsstring" where
  "substring a b s =
     (let a' = min a (length s); b' = min b (length s)
      in take (max a' b' - min a' b') (drop (min a' b') s))"

section \<open>The filename sanitizer\<close>

definition sanitizeFilename :: "jsstring \<Rightarrow> jsstring" where
  "sanitizeFilename name =
     substring 0 100
       (replace_class non_ascii (\<lambda>char. let code = char in if code < 128 then [char] else js ''_'')
         (replace_runs is_space (js ''_'')
           (replace_class is_illegal (\<lambda>_. []) name)))"

section \<open>Regular expressions\<close>

text \<open>
  The fragment of ECMAScript regular expressions that the platform patterns use: the
  assertion \<open>^\<close> (no \<open>m\<close> flag: only index 0), literal characters, character
  classes, sequence, alternation, \<open>?\<close>, and \<open>+\<close> on a single character class.
\<close>

datatype regex =
    Eps
  | Bol
  | Chr code_unit
  | Cls "code_unit \<Rightarrow> bool"
  | Seq regex regex
  | Alt regex regex
  | Opt regex
  | Plus "code_unit \<Rightarrow> bool"

text \<open>
  A backtracking matcher: from index \<open>i\<close> with the rest \<open>s\<close> of the input, all the
  places where a match of the expression can end, in the order the engine tries them
  (quantifiers are greedy).
\<close>

fun rmatch :: "regex \<Rightarrow> nat \<times> jsstring \<Rightarrow> (nat \<times> jsstring) list" where
  "rmatch Eps st = [st]"
| "rmatch Bol (i, s) = (if i = 0 then [(i, s)] else [])"
| "rmatch (Chr c) (i, s) = (case s of [] \<Rightarrow> [] | x # t \<Rightarrow> if x = c then [(Suc i, t)] else [])"
| "rmatch (Cls P) (i, s) = (case s of [] \<Rightarrow> [] | x # t \<Rightarrow> if P x then [(Suc i, t)] else [])"
| "rmatch (Seq a b) st = concat (map (rmatch b) (rmatch a st))"
| "rmatch (Alt a b) st = rmatch a st @ rmatch b st"
| "rmatch (Opt a) st = rmatch a st @ [st]"
| "rmatch (Plus P) (i, s) =
     (case s of [] \<Rightarrow> []
      | x # t \<Rightarrow> if P x then rmatch (Plus P) (Suc i, t) @ [(Suc i, t)] else [])"

text \<open>
  \<open>pattern.test(s)\<close> for a pattern without the \<open>g\<close> and \<open>y\<close> flags: is there a match
  starting at some index of \<open>s\<close>.
\<close>

definition regex_test :: "regex \<Rightarrow> jsstring \<Rightarrow> bool" where
  "regex_test r s = list_ex (\<lambda>k. rmatch r (k, drop k s) \<noteq> []) [0..<Suc (length s)]"

fun seqs :: "regex list \<Rightarrow> regex" where
  "seqs [] = Eps"
| "seqs (r # rs) = Seq r (seqs rs)"

definition lit :: "string \<Rightarrow> regex" where
  "lit w = seqs (map (\<lambda>c. Chr (of_char c)) w)"

text \<open>The classes \<open>\d\<close>, \<open>\w\<close>, \<open>[\w-]\<close>, \<open>[\w.]\<close> and \<open>.\<close> (no \<open>s\<close> flag).\<close>

definition is_digit :: "code_unit \<Rightarrow> bool" where
  "is_digit c \<longleftrightarrow> 0x30 \<le> c \<and> c \<le> 0x39"

definition is_word :: "code_unit \<Rightarrow> bool" where
  "is_word c \<longleftrightarrow>
     (0x61 \<le> c \<and> c \<le> 0x7A) \<or> (0x41 \<le> c \<and> c \<le> 0x5A) \<or>
     (0x30 \<le> c \<and> c \<le> 0x39) \<or> c = 0x5F"

definition is_word_dash :: "code_unit \<Rightarrow> bool" where
  "is_word_dash c \<longleftrightarrow> is_word c \<or> c = 0x2D"

definition is_word_dot :: "code_unit \<Rightarrow> bool" where
  "is_word_dot c \<longleftrightarrow> is_word c \<or> c = 0x2E"

definition dot :: "code_unit \<Rightarrow> bool" where
  "dot c \<longleftrightarrow> \<not> (c = 0x0A \<or> c = 0x0D \<or> c = 0x2028 \<or> c = 0x2029)"

section \<open>The format selector\<close>

text \<open>\<open>s.includes(sub)\<close>: \<open>sub\<close> occurs in \<open>s\<close> at some index.\<close>

definition str_includes :: "jsstring \<Rightarrow> jsstring \<Rightarrow> bool" where
  "str_includes s sub = list_ex (\<lambda>k. prefix sub (drop k s)) [0..<Suc (length s)]"

text \<open>
  \<open>platform?.includes("YouTube")\<close> is \<open>undefined\<close>, hence falsy, when no platform is
  given. Each \<open>switch\<close> compares with \<open>===\<close>, case by case from the top.
\<close>

definition getYtDlpFormat :: "jsstring \<Rightarrow> jsstring option \<Rightarrow> jsstring" where
  "getYtDlpFormat quality platform =
     (if (case platform of None \<Rightarrow> False | Some p \<Rightarrow> str_includes p (js ''YouTube'')) then
        (if quality = js ''audio'' then js ''bestaudio[ext=m4a]/bestaudio''
         else if quality = js ''720'' then
           js ''bestvideo[height<=720][ext=mp4]+bestaudio[ext=m4a]/best[height<=720]''
         else if quality = js ''1080'' then
           js ''bestvideo[height<=1080][ext=mp4]+bestaudio[ext=m4a]/best[height<=1080]''
         else if quality = js ''4k'' \<or> quality = js ''2160'' then
           js ''bestvideo[height<=2160][ext=mp4]+bestaudio[ext=m4a]/best[height<=2160]''
         else if quality = js ''best'' then
           js ''bestvideo[ext=mp4]+bestaudio[ext=m4a]/best[ext=mp4]/best''
         else js ''bestvideo[ext=mp4]+bestaudio[ext=m4a]/best[ext=mp4]/best'')
      else
        (if quality = js ''audio'' then js ''bestaudio/best''
         else if quality = js ''720'' then js ''bv*[height<=720]+ba/b[height<=720]/b''
         else if quality = js ''1080'' then js ''bv*[height<=1080]+ba/b[height<=1080]/b''
         else if quality = js ''4k'' \<or> quality = js ''2160'' then
           js ''bv*[height<=2160]+ba/b[height<=2160]/b''
         else if quality = js ''best'' then js ''bv*+ba/b''
         else js ''bv*+ba/b''))"

definition getFileExtension :: "jsstring \<Rightarrow> jsstring" where
  "getFileExtension quality = (if quality = js ''audio'' then js ''m4a'' else js ''mp4'')"

section \<open>The URL classifier\<close>

record PlatformConfig =
  name :: jsstring
  pattern :: regex
  icon :: jsstring

definition SUPPORTED_PLATFORMS :: "PlatformConfig list" where
  "SUPPORTED_PLATFORMS = [
    \<lparr>name = js ''Twitter/X'',
     pattern = seqs [Bol, lit ''http'', Opt (lit ''s''), lit ''://'', Opt (lit ''www.''),
       Alt (lit ''x.com'') (lit ''twitter.com''), lit ''/'', Plus dot, lit ''/status/'',
       Plus is_digit],
     icon = [0xD83D, 0xDC26]\<rparr>,
    \<lparr>name = js ''Instagram'',
     pattern = seqs [Bol, lit ''http'', Opt (lit ''s''), lit ''://'', Opt (lit ''www.''),
       lit ''instagram.com/'', Alt (lit ''p'') (Alt (lit ''reel'') (lit ''tv'')), lit ''/'',
       Plus is_word_dash],
     icon = [0xD83D, 0xDCF7]\<rparr>,
    \<lparr>name = js ''YouTube'',
     pattern = seqs [Bol, lit ''http'', Opt (lit ''s''), lit ''://'', Opt (lit ''www.''),
       Alt (lit ''youtube.com/watch?v='') (lit ''youtu.be/''), Plus is_word_dash],
     icon = [0x25B6, 0xFE0F]\<rparr>,
    \<lparr>name = js ''Reddit'',
     pattern = seqs [Bol, lit ''http'', Opt (lit ''s''), lit ''://'', Opt (lit ''www.''),
       lit ''reddit.com/r/'', Plus is_word, lit ''/comments/'', Plus is_word],
     icon = [0xD83E, 0xDD16]\<rparr>,
    \<lparr>name = js ''TikTok'',
     pattern = seqs [Bol, lit ''http'', Opt (lit ''s''), lit ''://'', Opt (lit ''www.''),
       Alt (seqs [lit ''tiktok.com/@'', Plus is_word_dot, lit ''/video/'', Plus is_digit])
           (seqs [lit ''vm.tiktok.com/'', Plus is_word])],
     icon = [0xD83C, 0xDFB5]\<rparr>,
    \<lparr>name = js ''Facebook'',
     pattern = seqs [Bol, lit ''http'', Opt (lit ''s''), lit ''://'', Opt (lit ''www.''),
       Alt (lit ''facebook.com'') (lit ''fb.watch''), lit ''/'',
       Alt (seqs [lit ''watch'', Opt (lit ''/''), lit ''?v='', Plus is_digit])
           (seqs [Plus is_word_dot, lit ''/videos/'', Plus is_digit])],
     icon = [0xD83D, 0xDC64]\<rparr>,
    \<lparr>name = js ''Vimeo'',
     pattern = seqs [Bol, lit ''http'', Opt (lit ''s''), lit ''://'', Opt (lit ''www.''),
       lit ''vimeo.com/'', Plus is_digit],
     icon = [0xD83C, 0xDFAC]\<rparr>,
    \<lparr>name = js ''Twitch Clips'',
     pattern = seqs [Bol, lit ''http'', Opt (lit ''s''), lit ''://'', Opt (lit ''www.''),
       Alt (seqs [lit ''clips.twitch.tv/'', Plus is_word])
           (seqs [lit ''twitch.tv/'', Plus is_word, lit ''/clip/'', Plus is_word])],
     icon = [0xD83C, 0xDFAE]\<rparr>,
    \<lparr>name = js ''Pinterest'',
     pattern = seqs [Bol, lit ''http'', Opt (lit ''s''), lit ''://'', Opt (lit ''www.''),
       lit ''pinterest.'', Alt (lit ''com'') (Alt (lit ''ca'') (lit ''co.uk'')), lit ''/pin/'',
       Plus is_digit],
     icon = [0xD83D, 0xDCCC]\<rparr>,
    \<lparr>name = js ''Dailymotion'',
     pattern = seqs [Bol, lit ''http'', Opt (lit ''s''), lit ''://'', Opt (lit ''www.''),
       lit ''dailymotion.com/video/'', Plus is_word],
     icon = [0xD83C, 0xDFA5]\<rparr>]"

text \<open>
  The result object \<open>{ valid, platform?, icon? }\<close>; an absent optional property is
  \<open>None\<close>. Its \<open>icon\<close> is the field \<open>platform_icon\<close>, since \<open>icon\<close> is the field
  of \<open>PlatformConfig\<close>.
\<close>

record validation =
  valid :: bool
  platform :: "jsstring option"
  platform_icon :: "jsstring option"

text \<open>The \<open>for ... of\<close> loop of \<open>isValidUrl\<close> over the platforms that remain.\<close>

fun isValidUrl_from :: "PlatformConfig list \<Rightarrow> jsstring \<Rightarrow> validation" where
  "isValidUrl_from [] url = \<lparr>valid = False, platform = None, platform_icon = None\<rparr>"
| "isValidUrl_from (p # ps) url =
     (if regex_test (pattern p) url
      then \<lparr>valid = True, platform = Some (name p), platform_icon = Some (icon p)\<rparr>
      else isValidUrl_from ps url)"

definition isValidUrl :: "jsstring \<Rightarrow> validation" where
  "isValidUrl url = isValidUrl_from SUPPORTED_PLATFORMS url"

section \<open>Requests, responses and the processes of a request\<close>

text \<open>
  A request is read through \<open>new URL(req.url)\<close> only: its path and its query
  parameters, in order. \<open>searchParams.get(k)\<close> is the first value of the key, or
  \<open>null\<close>.
\<close>

record request =
  pathname :: jsstring
  searchParams :: "(jsstring \<times> jsstring) list"

definition searchParams_get :: "(jsstring \<times> jsstring) list \<Rightarrow> jsstring \<Rightarrow> jsstring option" where
  "searchParams_get ps k = map_of ps k"

datatype json =
    JString jsstring
  | JNumber int
  | JArray "json list"
  | JObject "(jsstring \<times> json) list"

text \<open>
  A response body: \<open>JSON.stringify\<close> of a value, a string, \<open>Bun.file\<close> of a path, or
  the standard output of a spawned process.
\<close>

datatype body =
    JsonBody json
  | TextBody jsstring
  | FileBody jsstring
  | StreamBody nat

record response =
  status :: nat
  headers :: "(jsstring \<times> jsstring) list"
  body :: body

text \<open>
  A spawned process, by its command line, whether \<open>kill()\<close> has been called on its
  handle, and whether it has exited. A handle is the index in \<open>procs\<close>.
\<close>

record proc =
  cmd :: "jsstring list"
  killed :: bool
  exited :: bool

datatype log_entry =
    TitleFetchFailed
  | Downloading "jsstring option" jsstring jsstring
  | PipeFailed
  | ClientDisconnected
  | DownloadError jsstring

text \<open>
  What a request's handler can change: the processes it spawned, the pending
  \<open>setTimeout\<close> callbacks (each kills one handle), the request's abort signal with its
  listeners (each kills its handles, in order), the relay tasks (from a process's
  standard output to another's standard input) and the console. The two tasks that drain
  the standard error streams only write to the console and are left out.
\<close>

record world =
  procs :: "proc list"
  timers :: "nat list"
  aborted :: bool
  abort_listeners :: "nat list list"
  pipes :: "(nat \<times> nat) list"
  console :: "log_entry list"

text \<open>
  What the handler does not control: whether \<open>Bun.spawn\<close> throws for a command (and the
  message of the error), what the title probe prints for a URL (\<open>None\<close>: reading its
  output fails), the message of the runtime's \<open>URIError\<close>, and the clock.
\<close>

record env =
  spawn_error :: "jsstring list \<Rightarrow> jsstring option"
  title_result :: "jsstring \<Rightarrow> jsstring option"
  uri_error :: jsstring
  now :: int

definition spawn :: "env \<Rightarrow> jsstring list \<Rightarrow> world \<Rightarrow> jsstring + (nat \<times> world)" where
  "spawn e c w =
     (case spawn_error e c of
        Some msg \<Rightarrow> Inl msg
      | None \<Rightarrow> Inr (length (procs w),
          w\<lparr>procs := procs w @ [\<lparr>cmd = c, killed = False, exited = False\<rparr>]\<rparr>))"

definition kill :: "nat \<Rightarrow> world \<Rightarrow> world" where
  "kill h w = w\<lparr>procs := (procs w)[h := (procs w ! h)\<lparr>killed := True\<rparr>]\<rparr>"

definition log :: "log_entry \<Rightarrow> world \<Rightarrow> world" where
  "log x w = w\<lparr>console := console w @ [x]\<rparr>"

text \<open>\<open>s.trim()\<close> strips the white space and line terminators at both ends.\<close>

definition trim :: "jsstring \<Rightarrow> jsstring" where
  "trim s = rev (dropWhile is_space (rev (dropWhile is_space s)))"

subsection \<open>\<open>encodeURIComponent\<close>\<close>

definition uri_unreserved :: "code_unit \<Rightarrow> bool" where
  "uri_unreserved c \<longleftrightarrow>
     (0x41 \<le> c \<and> c \<le> 0x5A) \<or> (0x61 \<le> c \<and> c \<le> 0x7A) \<or> (0x30 \<le> c \<and> c \<le> 0x39) \<or>
     c = 0x2D \<or> c = 0x5F \<or> c = 0x2E \<or> c = 0x21 \<or> c = 0x7E \<or> c = 0x2A \<or>
     c = 0x27 \<or> c = 0x28 \<or> c = 0x29"

definition hex_digit :: "nat \<Rightarrow> code_unit" where
  "hex_digit n = (if n < 10 then 0x30 + of_nat n else 0x41 + of_nat (n - 10))"

definition percent_byte :: "nat \<Rightarrow> jsstring" where
  "percent_byte b = [0x25, hex_digit (b div 16), hex_digit (b mod 16)]"

definition utf8_bytes :: "nat \<Rightarrow> nat list" where
  "utf8_bytes cp =
     (if cp < 0x80 then [cp]
      else if cp < 0x800 then [0xC0 + cp div 0x40, 0x80 + cp mod 0x40]
      else if cp < 0x10000 then
        [0xE0 + cp div 0x1000, 0x80 + (cp div 0x40) mod 0x40, 0x80 + cp mod 0x40]
      else
        [0xF0 + cp div 0x40000, 0x80 + (cp div 0x1000) mod 0x40,
         0x80 + (cp div 0x40) mod 0x40, 0x80 + cp mod 0x40])"

definition percent_encode :: "nat \<Rightarrow> jsstring" where
  "percent_encode cp = concat (map percent_byte (utf8_bytes cp))"

text \<open>\<open>None\<close> is the \<open>URIError\<close> thrown for a lone surrogate.\<close>

fun encodeURIComponent :: "jsstring \<Rightarrow> jsstring option" where
  "encodeURIComponent [] = Some []"
| "encodeURIComponent (c # s) =
     (if uri_unreserved c then map_option ((#) c) (encodeURIComponent s)
      else if 0xDC00 \<le> c \<and> c \<le> 0xDFFF then None
      else if 0xD800 \<le> c \<and> c \<le> 0xDBFF then
        (case s of
           [] \<Rightarrow> None
         | d # s' \<Rightarrow>
             if 0xDC00 \<le> d \<and> d \<le> 0xDFFF then
               map_option
                 ((@) (percent_encode
                    (0x10000 + (unat c - 0xD800) * 0x400 + (unat d - 0xDC00))))
                 (encodeURIComponent s')
             else None)
      else map_option ((@) (percent_encode (unat c))) (encodeURIComponent s))"

section \<open>The pipeline orchestrator\<close>

definition json_headers :: "(jsstring \<times> jsstring) list" where
  "json_headers = [(js ''Content-Type'', js ''application/json'')]"

definition missing_url_response :: response where
  "missing_url_response =
     \<lparr>status = 400, headers = json_headers,
      body = JsonBody (JObject [(js ''error'', JString (js ''Missing url parameter''))])\<rparr>"

definition unsupported_url_response :: response where
  "unsupported_url_response =
     \<lparr>status = 400, headers = json_headers,
      body = JsonBody (JObject [
        (js ''error'', JString (js ''Unsupported URL'')),
        (js ''message'', JString (js ''Please provide a valid URL from supported platforms'')),
        (js ''supported'', JArray (map (\<lambda>p. JString (name p)) SUPPORTED_PLATFORMS))])\<rparr>"

text \<open>The \<open>catch\<close> block of \<open>streamVideo\<close>, for a thrown \<open>Error\<close> with the message.\<close>

definition download_failed :: "jsstring \<Rightarrow> world \<Rightarrow> response \<times> world" where
  "download_failed msg w =
     (\<lparr>status = 500, headers = json_headers,
       body = JsonBody (JObject [
         (js ''error'', JString (js ''Failed to download video'')),
         (js ''message'', JString msg)])\<rparr>,
      log (DownloadError msg) w)"

definition ffmpegCmd :: "bool \<Rightarrow> jsstring list" where
  "ffmpegCmd isAudioOnly =
     (if isAudioOnly then
        [js ''ffmpeg'', js ''-loglevel'', js ''error'', js ''-i'', js ''pipe:0'',
         js ''-c:a'', js ''aac'', js ''-b:a'', js ''192k'', js ''-f'', js ''ipod'', js ''pipe:1'']
      else
        [js ''ffmpeg'', js ''-loglevel'', js ''error'', js ''-i'', js ''pipe:0'',
         js ''-c:v'', js ''copy'', js ''-c:a'', js ''aac'',
         js ''-movflags'', js ''frag_keyframe+empty_moov'', js ''-f'', js ''mp4'', js ''pipe:1''])"

text \<open>
  The handler is asynchronous: it runs up to its first \<open>await\<close> (the output of the title
  probe), and the rest runs, in one piece, when the title has settled. What is awaited
  for is kept in between.
\<close>

datatype pending = Pending jsstring jsstring validation nat

text \<open>
  From the call to the first \<open>await\<close>: validation, the spawn of the title probe and its
  time limit. \<open>!url\<close> holds for \<open>null\<close> and for the empty string, and so does the
  left side of \<open>searchParams.get("quality") || "best"\<close>.
\<close>

definition streamVideo_begin :: "env \<Rightarrow> request \<Rightarrow> world \<Rightarrow> (response + pending) \<times> world" where
  "streamVideo_begin e req w =
     (let url = searchParams_get (searchParams req) (js ''url'');
          quality =
            (case searchParams_get (searchParams req) (js ''quality'') of
               None \<Rightarrow> js ''best''
             | Some q \<Rightarrow> if q = [] then js ''best'' else q)
      in case url of
           None \<Rightarrow> (Inl missing_url_response, w)
         | Some u \<Rightarrow>
             if u = [] then (Inl missing_url_response, w)
             else
               let validation = isValidUrl u in
               if \<not> valid validation then (Inl unsupported_url_response, w)
               else
                 (case spawn e [js ''yt-dlp'', js ''--print'', js ''title'', u] w of
                    Inl msg \<Rightarrow> (case download_failed msg w of (r, w') \<Rightarrow> (Inl r, w'))
                  | Inr (titleProc, w1) \<Rightarrow>
                      (Inr (Pending u quality validation titleProc),
                       w1\<lparr>timers := timers w1 @ [titleProc]\<rparr>)))"

text \<open>
  From the settled title to the returned response. \<open>raw\<close> is the text read from the
  title probe, after which the probe has exited, or \<open>None\<close> when reading failed.
\<close>

definition streamVideo_resume :: "env \<Rightarrow> pending \<Rightarrow> jsstring option \<Rightarrow> world \<Rightarrow> response \<times> world" where
  "streamVideo_resume e p raw w =
     (case p of Pending u quality validation titleProc \<Rightarrow>
        let w1 = w\<lparr>timers := removeAll titleProc (timers w)\<rparr>;
            (title, w2) =
              (case raw of
                 Some rawTitle \<Rightarrow>
                   (if trim rawTitle = [] then js ''video'' else trim rawTitle,
                    w1\<lparr>procs := (procs w1)[titleProc := (procs w1 ! titleProc)\<lparr>exited := True\<rparr>]\<rparr>)
               | None \<Rightarrow> (js ''video'', log TitleFetchFailed w1));
            safeTitle = sanitizeFilename title;
            ext = getFileExtension quality;
            filename = safeTitle @ js ''.'' @ ext;
            format = getYtDlpFormat quality (platform validation);
            w3 = log (Downloading (platform validation) title quality) w2
        in case spawn e [js ''yt-dlp'', js ''-f'', format, js ''-o'', js ''-'', u] w3 of
             Inl msg \<Rightarrow> download_failed msg w3
           | Inr (ytdlp, w4) \<Rightarrow>
               let isAudioOnly = (quality = js ''audio'') in
               (case spawn e (ffmpegCmd isAudioOnly) w4 of
                  Inl msg \<Rightarrow> download_failed msg w4
                | Inr (ffmpeg, w5) \<Rightarrow>
                    let w6 = w5\<lparr>pipes := pipes w5 @ [(ytdlp, ffmpeg)]\<rparr>;
                        w7 = w6\<lparr>abort_listeners := abort_listeners w6 @ [[ffmpeg, ytdlp]]\<rparr>
                    in case encodeURIComponent filename of
                         None \<Rightarrow> download_failed (uri_error e) w7
                       | Some encodedFilename \<Rightarrow>
                           (\<lparr>status = 200,
                             headers = [
                               (js ''Content-Type'',
                                if isAudioOnly then js ''audio/mp4'' else js ''video/mp4''),
                               (js ''Content-Disposition'',
                                js ''attachment; filename='' @ [0x22] @
                                (if isAudioOnly then js ''audio'' else js ''video'') @
                                js ''.'' @ ext @ [0x22] @ js ''; filename*=UTF-8'' @
                                [0x27, 0x27] @ encodedFilename),
                               (js ''Cache-Control'', js ''no-store''),
                               (js ''X-Content-Type-Options'', js ''nosniff'')],
                             body = StreamBody ffmpeg\<rparr>,
                            w7)))"

text \<open>
  \<open>streamVideo\<close> as a function: the run in which nothing else happens while the title
  is awaited. The other runs are those of the step relation below.
\<close>

definition streamVideo :: "env \<Rightarrow> request \<Rightarrow> world \<Rightarrow> response \<times> world" where
  "streamVideo e req w =
     (case streamVideo_begin e req w of
        (Inl r, w') \<Rightarrow> (r, w')
      | (Inr p, w') \<Rightarrow>
          (case p of Pending u quality validation titleProc \<Rightarrow>
             streamVideo_resume e p (title_result e u) w'))"

section \<open>The HTTP endpoint layer\<close>

definition getSupportedPlatforms :: json where
  "getSupportedPlatforms =
     JArray (map (\<lambda>p. JObject [(js ''name'', JString (name p)), (js ''icon'', JString (icon p))])
       SUPPORTED_PLATFORMS)"

definition fetch :: "env \<Rightarrow> request \<Rightarrow> world \<Rightarrow> response \<times> world" where
  "fetch e req w =
     (if pathname req = js ''/'' then
        (\<lparr>status = 200,
          headers = [(js ''Content-Type'', js ''text/html''),
                     (js ''Cache-Control'', js ''public, max-age=300'')],
          body = FileBody (js ''../public/index.html'')\<rparr>, w)
      else if pathname req = js ''/api/platforms'' then
        (\<lparr>status = 200,
          headers = [(js ''Content-Type'', js ''application/json''),
                     (js ''Access-Control-Allow-Origin'', js ''*'')],
          body = JsonBody getSupportedPlatforms\<rparr>, w)
      else if pathname req = js ''/api/download'' then streamVideo e req w
      else if pathname req = js ''/twitter/stream'' then streamVideo e req w
      else if pathname req = js ''/health'' then
        (\<lparr>status = 200,
          headers = [(js ''Content-Type'', js ''application/json'')],
          body = JsonBody (JObject [(js ''status'', JString (js ''ok'')),
                                    (js ''timestamp'', JNumber (now e))])\<rparr>, w)
      else (\<lparr>status = 404, headers = [], body = TextBody (js ''Not Found'')\<rparr>, w))"

section \<open>The lifecycle of a request\<close>

text \<open>
  The event loop runs one task at a time, each to its end. The tasks of a request: the
  call of the handler, its continuation when the title has settled, the time limit of the
  title probe, the exit of a process, the abort of the request (the client disconnected:
  the signal fires once and runs the listeners registered by then), and the failure or
  the end of a relay.
\<close>

datatype event =
    Call request
  | TitleSettled "jsstring option"
  | TimerFires nat
  | ProcExits nat
  | ClientAborts
  | PipeFails nat nat
  | PipeEnds nat nat

datatype phase = Idle | Probing pending | Responded response

record lifecycle =
  world :: world
  phase :: phase

text \<open>The listener of \<open>streamVideo\<close>: it logs, then kills its handles in order.\<close>

definition run_listener :: "nat list \<Rightarrow> world \<Rightarrow> world" where
  "run_listener hs w = fold kill hs (log ClientDisconnected w)"

definition fire_abort :: "world \<Rightarrow> world" where
  "fire_abort w = fold run_listener (abort_listeners w) (w\<lparr>aborted := True\<rparr>)"

text \<open>One task; \<open>None\<close> when the event cannot happen in the state.\<close>

fun step :: "env \<Rightarrow> lifecycle \<Rightarrow> event \<Rightarrow> lifecycle option" where
  "step e s (Call req) =
     (case phase s of
        Idle \<Rightarrow>
          (case streamVideo_begin e req (world s) of
             (Inl r, w') \<Rightarrow> Some \<lparr>world = w', phase = Responded r\<rparr>
           | (Inr p, w') \<Rightarrow> Some \<lparr>world = w', phase = Probing p\<rparr>)
      | _ \<Rightarrow> None)"
| "step e s (TitleSettled raw) =
     (case phase s of
        Probing p \<Rightarrow>
          (case streamVideo_resume e p raw (world s) of
             (r, w') \<Rightarrow> Some \<lparr>world = w', phase = Responded r\<rparr>)
      | _ \<Rightarrow> None)"
| "step e s (TimerFires h) =
     (if h \<in> set (timers (world s))
      then Some (s\<lparr>world := kill h ((world s)\<lparr>timers := removeAll h (timers (world s))\<rparr>)\<rparr>)
      else None)"
| "step e s (ProcExits h) =
     (if h < length (procs (world s))
      then Some (s\<lparr>world := (world s)\<lparr>procs :=
        (procs (world s))[h := (procs (world s) ! h)\<lparr>exited := True\<rparr>]\<rparr>\<rparr>)
      else None)"
| "step e s ClientAborts =
     (if \<not> aborted (world s) then Some (s\<lparr>world := fire_abort (world s)\<rparr>) else None)"
| "step e s (PipeFails src dst) =
     (if (src, dst) \<in> set (pipes (world s))
      then Some (s\<lparr>world := kill src (kill dst (log PipeFailed
        ((world s)\<lparr>pipes := removeAll (src, dst) (pipes (world s))\<rparr>)))\<rparr>)
      else None)"
| "step e s (PipeEnds src dst) =
     (if (src, dst) \<in> set (pipes (world s))
      then Some (s\<lparr>world := (world s)\<lparr>pipes := removeAll (src, dst) (pipes (world s))\<rparr>\<rparr>)
      else None)"

fun run :: "env \<Rightarrow> lifecycle \<Rightarrow> event list \<Rightarrow> lifecycle option" where
  "run e s [] = Some s"
| "run e s (ev # evs) = (case step e s ev of None \<Rightarrow> None | Some s' \<Rightarrow> run e s' evs)"

definition initial :: lifecycle where
  "initial =
     \<lparr>world = \<lparr>procs = [], timers = [], aborted = False, abort_listeners = [], pipes = [],
        console = []\<rparr>,
      phase = Idle\<rparr>"

text \<open>The downloader and the transcoder, by their command lines.\<close>

definition is_downloader :: "proc \<Rightarrow> bool" where
  "is_downloader p \<longleftrightarrow> take 2 (cmd p) = [js ''yt-dlp'', js ''-f'']"

definition is_transcoder :: "proc \<Rightarrow> bool" where
  "is_transcoder p \<longleftrightarrow> take 1 (cmd p) = [js ''ffmpeg'']"

subsection \<open>Notions for the lifecycle proofs\<close>

definition media :: "proc \<Rightarrow> bool" where
  "media p \<longleftrightarrow> is_downloader p \<or> is_transcoder p"

text \<open>A change of world that only sets flags of processes, and touches no listener.\<close>

definition flags_only :: "world \<Rightarrow> world \<Rightarrow> bool" where
  "flags_only w w' \<longleftrightarrow>
     map cmd (procs w') = map cmd (procs w) \<and>
     abort_listeners w' = abort_listeners w \<and>
     (\<forall>k < length (procs w). killed (procs w ! k) \<longrightarrow> killed (procs w' ! k))"

text \<open>Every downloader and transcoder is a handle of some abort listener.\<close>

definition covered :: "world \<Rightarrow> bool" where
  "covered w \<longleftrightarrow>
     (\<forall>k < length (procs w). media (procs w ! k) \<longrightarrow>
        (\<exists>l \<in> set (abort_listeners w). k \<in> set l))"

definition inv :: "lifecycle \<Rightarrow> bool" where
  "inv s \<longleftrightarrow>
     (case phase s of
        Idle \<Rightarrow> procs (world s) = []
      | Probing p \<Rightarrow> (\<forall>q \<in> set (procs (world s)). \<not> media q)
      | Responded r \<Rightarrow> (list_ex is_transcoder (procs (world s)) \<longrightarrow> covered (world s)))"

definition all_killed :: "lifecycle \<Rightarrow> bool" where
  "all_killed s \<longleftrightarrow>
     (\<exists>r. phase s = Responded r) \<and> (\<forall>p \<in> set (procs (world s)). media p \<longrightarrow> killed p)"

text \<open>An environment in which no spawn fails and the title probe prints nothing.\<close>

definition quiet_env :: env where
  "quiet_env = \<lparr>spawn_error = (\<lambda>_. None), title_result = (\<lambda>_. Some []), uri_error = [], now = 0\<rparr>"

text \<open>A request for a supported URL.\<close>

definition youtube_request :: request where
  "youtube_request =
     \<lparr>pathname = js ''/api/download'',
      searchParams = [(js ''url'', js ''https://youtu.be/abc'')]\<rparr>"

section \<open>Properties of the sanitizer\<close>

lemma substring_0: "substring 0 n s = take n s"
  by (simp add: substring_def Let_def min_def)

lemma set_replace_class_remove: "set (replace_class P (\<lambda>_. []) s) = {c \<in> set s. \<not> P c}"
  by (induction s) (auto simp: replace_class_def)

lemma set_replace_runs: "set (replace_runs P rep s) \<subseteq> set rep \<union> {c \<in> set s. \<not> P c}"
proof (induction P rep s rule: replace_runs.induct)
  case (1 P rep)
  show ?case by simp
next
  case (2 P rep c s)
  show ?case
  proof (cases "P c")
    case True
    have "set (dropWhile P s) \<subseteq> set s"
      by (simp add: set_dropWhileD subsetI)
    with True "2.IH"(1) show ?thesis by auto
  next
    case False
    with "2.IH"(2) show ?thesis by auto
  qed
qed

lemma non_ascii_iff: "non_ascii c \<longleftrightarrow> \<not> c < 128"
  by (auto simp: non_ascii_def word_le_nat_alt word_less_nat_alt)

lemma set_replace_class_underscore:
  "set (replace_class non_ascii (\<lambda>char. let code = char in if code < 128 then [char] else js ''_'') s)
     \<subseteq> insert 0x5F {c \<in> set s. \<not> non_ascii c}"
  by (induction s) (auto simp: replace_class_def js_def Let_def non_ascii_iff)

lemma underscore_plain: "\<not> is_illegal 0x5F" "\<not> is_space 0x5F" "\<not> non_ascii 0x5F"
  by (simp_all add: is_illegal_def is_space_def non_ascii_def)

text \<open>What one pass establishes for every code unit of the result.\<close>

lemma sanitizeFilename_units:
  assumes "c \<in> set (sanitizeFilename s)"
  shows "\<not> is_illegal c \<and> \<not> is_space c \<and> \<not> non_ascii c"
proof -
  let ?s1 = "replace_class is_illegal (\<lambda>_. []) s"
  let ?s2 = "replace_runs is_space (js ''_'') ?s1"
  let ?s3 = "replace_class non_ascii (\<lambda>char. let code = char in if code < 128 then [char] else js ''_'') ?s2"
  from assms have "c \<in> set ?s3"
    by (auto simp: sanitizeFilename_def substring_0 dest: in_set_takeD)
  with set_replace_class_underscore [of ?s2]
  consider "c = 0x5F" | "c \<in> set ?s2" "\<not> non_ascii c" by auto
  then show ?thesis
  proof cases
    case 1
    then show ?thesis using underscore_plain by simp
  next
    case 2
    with set_replace_runs [of is_space "js ''_''" ?s1]
    consider "c = 0x5F" | "c \<in> set ?s1" "\<not> is_space c" by (auto simp: js_def)
    then show ?thesis
    proof cases
      case 1
      then show ?thesis using underscore_plain by simp
    next
      case 2
      with \<open>\<not> non_ascii c\<close> show ?thesis by (simp add: set_replace_class_remove)
    qed
  qed
qed

lemma replace_class_id: "\<forall>c \<in> set s. \<not> P c \<Longrightarrow> replace_class P f s = s"
  by (induction s) (auto simp: replace_class_def)

lemma replace_runs_id: "\<forall>c \<in> set s. \<not> P c \<Longrightarrow> replace_runs P rep s = s"
  by (induction s) auto

lemma sanitizeFilename_plain:
  assumes "\<forall>c \<in> set s. \<not> is_illegal c \<and> \<not> is_space c \<and> \<not> non_ascii c"
  shows "sanitizeFilename s = take 100 s"
  using assms by (simp add: sanitizeFilename_def substring_0 replace_class_id replace_runs_id)

lemma length_sanitizeFilename: "length (sanitizeFilename s) \<le> 100"
  by (simp add: sanitizeFilename_def substring_0)

text \<open>
  C6: the sanitizer's output has at most 100 code units and contains none of the nine
  characters \<open>/ \ : * ? " < > |\<close>.
\<close>

theorem sanitizeFilename_bounded_clean:
  "length (sanitizeFilename s) \<le> 100 \<and>
   0x2F \<notin> set (sanitizeFilename s) \<and> 0x5C \<notin> set (sanitizeFilename s) \<and>
   0x3A \<notin> set (sanitizeFilename s) \<and> 0x2A \<notin> set (sanitizeFilename s) \<and>
   0x3F \<notin> set (sanitizeFilename s) \<and> 0x22 \<notin> set (sanitizeFilename s) \<and>
   0x3C \<notin> set (sanitizeFilename s) \<and> 0x3E \<notin> set (sanitizeFilename s) \<and>
   0x7C \<notin> set (sanitizeFilename s)"
proof -
  have "\<not> is_illegal c" if "c \<in> set (sanitizeFilename s)" for c
    using that sanitizeFilename_units by blast
  then have "c \<notin> set (sanitizeFilename s)" if "is_illegal c" for c
    using that by blast
  then show ?thesis
    using length_sanitizeFilename [of s] by (simp add: is_illegal_def)
qed

text \<open>
  C7: the sanitizer is idempotent: sanitizing a sanitized string changes nothing.
\<close>

theorem sanitizeFilename_idempotent:
  "sanitizeFilename (sanitizeFilename s) = sanitizeFilename s"
proof -
  have "sanitizeFilename (sanitizeFilename s) = take 100 (sanitizeFilename s)"
    by (rule sanitizeFilename_plain) (use sanitizeFilename_units in blast)
  then show ?thesis
    using length_sanitizeFilename [of s] by simp
qed

lemma js_Nil_iff: "js w = [] \<longleftrightarrow> w = []"
  by (simp add: js_def)

lemma length_js: "length (js w) = length w"
  by (simp add: js_def)

lemma replace_class_remove_Nil_iff:
  "replace_class P (\<lambda>_. []) s = [] \<longleftrightarrow> (\<forall>c \<in> set s. P c)"
  by (induction s) (auto simp: replace_class_def)

lemma replace_runs_Nil_iff: "rep \<noteq> [] \<Longrightarrow> replace_runs P rep s = [] \<longleftrightarrow> s = []"
  by (cases s) auto

lemma replace_class_underscore_Nil_iff:
  "replace_class P (\<lambda>char. if char < 128 then [char] else js ''_'') s = [] \<longleftrightarrow> s = []"
  by (cases s) (auto simp: replace_class_def js_def)

text \<open>When the result is empty: every character of the input was one of the nine removed.\<close>

lemma sanitizeFilename_empty_iff:
  "sanitizeFilename s = [] \<longleftrightarrow> (\<forall>c \<in> set s. is_illegal c)"
  by (simp add: sanitizeFilename_def substring_0 replace_class_underscore_Nil_iff
      replace_runs_Nil_iff js_Nil_iff replace_class_remove_Nil_iff)

text \<open>
  The handler never passes an empty title: a blank title is replaced by \<open>video\<close> before
  the sanitizer is called.
\<close>

lemma streamVideo_title_never_empty:
  "(case raw of
      Some rawTitle \<Rightarrow> (if trim rawTitle = [] then js ''video'' else trim rawTitle)
    | None \<Rightarrow> js ''video'') \<noteq> []"
  by (simp add: js_def split: option.split)

text \<open>
  C1 does not hold of the code: for the title \<open>???\<close>, which the title probe can print,
  the sanitizer returns the empty string, and the suggested file name is \<open>.mp4\<close>. The
  default base name is applied to the title before it is sanitized, not to the sanitized
  name: a blank title gets \<open>video.mp4\<close>.
\<close>

theorem sanitizeFilename_empty_for_removed_title:
  "sanitizeFilename (js ''???'') = [] \<and>
   map_of (headers (fst (streamVideo (quiet_env\<lparr>title_result := (\<lambda>_. Some (js ''???''))\<rparr>)
       youtube_request (world initial)))) (js ''Content-Disposition'') =
     Some (js ''attachment; filename='' @ [0x22] @ js ''video.mp4'' @ [0x22] @
           js ''; filename*=UTF-8'' @ [0x27, 0x27] @ js ''.mp4'') \<and>
   map_of (headers (fst (streamVideo quiet_env youtube_request (world initial))))
       (js ''Content-Disposition'') =
     Some (js ''attachment; filename='' @ [0x22] @ js ''video.mp4'' @ [0x22] @
           js ''; filename*=UTF-8'' @ [0x27, 0x27] @ js ''video.mp4'')"
  by code_simp

section \<open>Properties of the format selector\<close>

text \<open>
  C4: the format selector returns a non-empty expression for every quality and optional
  platform, and a quality outside \<open>audio\<close>, \<open>720\<close>, \<open>1080\<close>, \<open>4k\<close>, \<open>2160\<close>,
  \<open>best\<close> gets the expression of \<open>best\<close>, in the YouTube family and in the generic one.
\<close>

theorem getYtDlpFormat_total:
  "getYtDlpFormat quality p \<noteq> [] \<and>
   (quality \<notin> {js ''audio'', js ''720'', js ''1080'', js ''4k'', js ''2160'', js ''best''} \<longrightarrow>
      getYtDlpFormat quality p = getYtDlpFormat (js ''best'') p)"
proof
  show "getYtDlpFormat quality p \<noteq> []"
    by (simp add: getYtDlpFormat_def js_Nil_iff)
  have best: "js ''best'' \<noteq> js ''audio''" "js ''best'' \<noteq> js ''720''" "js ''best'' \<noteq> js ''1080''"
    "js ''best'' \<noteq> js ''4k''" "js ''best'' \<noteq> js ''2160''"
    by (simp_all add: js_def)
  show "quality \<notin> {js ''audio'', js ''720'', js ''1080'', js ''4k'', js ''2160'', js ''best''} \<longrightarrow>
      getYtDlpFormat quality p = getYtDlpFormat (js ''best'') p"
    using best by (simp add: getYtDlpFormat_def)
qed

theorem getYtDlpFormat_total_witness:
  "getYtDlpFormat (js ''480'') (Some (js ''YouTube'')) = getYtDlpFormat (js ''best'') (Some (js ''YouTube''))
   \<and> getYtDlpFormat (js ''480'') None = getYtDlpFormat (js ''best'') None"
  using getYtDlpFormat_total [of "js ''480''" "Some (js ''YouTube'')"]
    getYtDlpFormat_total [of "js ''480''" None]
  by (simp add: js_def)


section \<open>Properties of the URL classifier\<close>

lemma isValidUrl_from_none:
  "\<forall>p \<in> set ps. \<not> regex_test (pattern p) url \<Longrightarrow>
   isValidUrl_from ps url = \<lparr>valid = False, platform = None, platform_icon = None\<rparr>"
  by (induction ps) auto

lemma isValidUrl_from_first:
  "i < length ps \<Longrightarrow> regex_test (pattern (ps ! i)) url \<Longrightarrow>
   \<forall>j < i. \<not> regex_test (pattern (ps ! j)) url \<Longrightarrow>
   isValidUrl_from ps url =
     \<lparr>valid = True, platform = Some (name (ps ! i)), platform_icon = Some (icon (ps ! i))\<rparr>"
proof (induction ps arbitrary: i)
  case Nil
  then show ?case by simp
next
  case (Cons p ps)
  show ?case
  proof (cases i)
    case 0
    with Cons.prems show ?thesis by simp
  next
    case (Suc k)
    with Cons.prems have "\<not> regex_test (pattern p) url" by auto
    moreover from Suc Cons.prems have "isValidUrl_from ps url =
        \<lparr>valid = True, platform = Some (name (ps ! k)), platform_icon = Some (icon (ps ! k))\<rparr>"
      by (intro Cons.IH) auto
    ultimately show ?thesis using Suc by simp
  qed
qed

text \<open>
  C3: the classifier returns the name (and icon) of the first platform of the list whose
  pattern matches the input, and the "not supported" result when no pattern matches.
\<close>

theorem isValidUrl_first_match:
  "(i < length SUPPORTED_PLATFORMS \<and> regex_test (pattern (SUPPORTED_PLATFORMS ! i)) url \<and>
    (\<forall>j < i. \<not> regex_test (pattern (SUPPORTED_PLATFORMS ! j)) url) \<longrightarrow>
      isValidUrl url = \<lparr>valid = True, platform = Some (name (SUPPORTED_PLATFORMS ! i)),
        platform_icon = Some (icon (SUPPORTED_PLATFORMS ! i))\<rparr>) \<and>
   ((\<forall>p \<in> set SUPPORTED_PLATFORMS. \<not> regex_test (pattern p) url) \<longrightarrow>
      isValidUrl url = \<lparr>valid = False, platform = None, platform_icon = None\<rparr>)"
  unfolding isValidUrl_def
  using isValidUrl_from_first [of i SUPPORTED_PLATFORMS url]
    isValidUrl_from_none [of SUPPORTED_PLATFORMS url]
  by blast

theorem isValidUrl_first_match_witness:
  "isValidUrl (js ''https://youtu.be/abc'') =
     \<lparr>valid = True, platform = Some (js ''YouTube''), platform_icon = Some [0x25B6, 0xFE0F]\<rparr> \<and>
   isValidUrl (js ''https://example.com/not-a-platform'') =
     \<lparr>valid = False, platform = None, platform_icon = None\<rparr>"
proof -
  have a: "regex_test (pattern (SUPPORTED_PLATFORMS ! 2)) (js ''https://youtu.be/abc'')"
    by code_simp
  have "\<not> regex_test (pattern (SUPPORTED_PLATFORMS ! 0)) (js ''https://youtu.be/abc'')"
    "\<not> regex_test (pattern (SUPPORTED_PLATFORMS ! 1)) (js ''https://youtu.be/abc'')"
    by code_simp+
  then have b: "\<forall>j < 2. \<not> regex_test (pattern (SUPPORTED_PLATFORMS ! j)) (js ''https://youtu.be/abc'')"
    by (auto dest: less_2_cases)
  have "list_all (\<lambda>p. \<not> regex_test (pattern p) (js ''https://example.com/not-a-platform''))
      SUPPORTED_PLATFORMS"
    by code_simp
  then have c: "\<forall>p \<in> set SUPPORTED_PLATFORMS.
      \<not> regex_test (pattern p) (js ''https://example.com/not-a-platform'')"
    by (simp only: list_all_iff)
  have d: "2 < length SUPPORTED_PLATFORMS" "name (SUPPORTED_PLATFORMS ! 2) = js ''YouTube''"
    "icon (SUPPORTED_PLATFORMS ! 2) = [0x25B6, 0xFE0F]"
    by (simp_all add: SUPPORTED_PLATFORMS_def)
  from a b d isValidUrl_first_match [of 2 "js ''https://youtu.be/abc''"]
  have "isValidUrl (js ''https://youtu.be/abc'') =
     \<lparr>valid = True, platform = Some (js ''YouTube''), platform_icon = Some [0x25B6, 0xFE0F]\<rparr>"
    by simp
  moreover from c isValidUrl_first_match [of 0 "js ''https://example.com/not-a-platform''"]
  have "isValidUrl (js ''https://example.com/not-a-platform'') =
     \<lparr>valid = False, platform = None, platform_icon = None\<rparr>"
    by blast
  ultimately show ?thesis by simp
qed

lemma regex_test_Bol: "regex_test (Seq Bol r) s \<longleftrightarrow> rmatch r (0, s) \<noteq> []"
proof -
  have "regex_test (Seq Bol r) s \<longleftrightarrow> (\<exists>k \<le> length s. k = 0 \<and> rmatch r (0, drop k s) \<noteq> [])"
    by (auto simp: regex_test_def list_ex_iff less_Suc_eq_le)
  then show ?thesis by auto
qed

lemma lit_Nil: "lit [] = Eps"
  by (simp add: lit_def)

lemma lit_Cons: "lit (c # w) = Seq (Chr (of_char c)) (lit w)"
  by (simp add: lit_def)

lemma rmatch_lit:
  "rmatch (lit w) (i, s) =
     (if prefix (js w) s then [(i + length w, drop (length w) s)] else [])"
proof (induction w arbitrary: i s)
  case Nil
  show ?case by (simp add: lit_Nil js_def)
next
  case (Cons c w)
  show ?case
    by (cases s) (simp_all add: lit_Cons js_def Cons.IH [unfolded js_def])
qed

lemma rmatch_Seq_litE:
  assumes "rmatch (Seq (lit w) r) (i, s) \<noteq> []"
  obtains t where "s = js w @ t" and "rmatch r (i + length w, t) \<noteq> []"
proof -
  from assms have p: "prefix (js w) s" and m: "rmatch r (i + length w, drop (length w) s) \<noteq> []"
    by (simp_all add: rmatch_lit split: if_splits)
  from p obtain t where t: "s = js w @ t" by (auto simp: prefix_def)
  then have "drop (length w) s = t" by (simp add: length_js)
  with m t that show thesis by simp
qed

lemma rmatch_Seq_OptE:
  assumes "rmatch (Seq (Opt a) b) st \<noteq> []"
  obtains "rmatch (Seq a b) st \<noteq> []" | "rmatch b st \<noteq> []"
  using assms by auto

lemma regex_test_anchored:
  assumes "regex_test (Seq Bol (Seq (lit ''http'') (Seq (Opt (lit ''s'')) (Seq (lit ''://'') r)))) s"
  shows "prefix (js ''http://'') s \<or> prefix (js ''https://'') s"
proof -
  let ?tail = "Seq (Opt (lit ''s'')) (Seq (lit ''://'') r)"
  from assms have "rmatch (Seq (lit ''http'') ?tail) (0, s) \<noteq> []"
    by (simp only: regex_test_Bol simp_thms)
  then obtain t where s: "s = js ''http'' @ t"
    and "rmatch ?tail (0 + length ''http'', t) \<noteq> []"
    by (rule rmatch_Seq_litE)
  from this(2) show ?thesis
  proof (cases rule: rmatch_Seq_OptE)
    case 1
    then obtain t' where t: "t = js ''s'' @ t'"
      and "rmatch (Seq (lit ''://'') r) (0 + length ''http'' + length ''s'', t') \<noteq> []"
      by (rule rmatch_Seq_litE)
    from this(2) obtain t'' where "t' = js ''://'' @ t''"
      by (rule rmatch_Seq_litE)
    with s t have "s = js ''https://'' @ t''" by (simp add: js_def)
    then show ?thesis by simp
  next
    case 2
    then obtain t' where "t = js ''://'' @ t'"
      by (rule rmatch_Seq_litE)
    with s have "s = js ''http://'' @ t'" by (simp add: js_def)
    then show ?thesis by simp
  qed
qed

lemma SUPPORTED_PLATFORMS_anchored:
  assumes "p \<in> set SUPPORTED_PLATFORMS" and "regex_test (pattern p) s"
  shows "prefix (js ''http://'') s \<or> prefix (js ''https://'') s"
  using assms
  by (auto simp: SUPPORTED_PLATFORMS_def dest!: regex_test_anchored)

text \<open>
  C10: an input that starts neither with \<open>http://\<close> nor with \<open>https://\<close> is classified
  as not supported.
\<close>

theorem isValidUrl_requires_scheme:
  assumes "\<not> prefix (js ''http://'') url" and "\<not> prefix (js ''https://'') url"
  shows "isValidUrl url = \<lparr>valid = False, platform = None, platform_icon = None\<rparr>"
  unfolding isValidUrl_def
  using assms by (intro isValidUrl_from_none) (blast dest: SUPPORTED_PLATFORMS_anchored)

theorem isValidUrl_requires_scheme_witness:
  "isValidUrl (js ''ftp://youtu.be/abc'') = \<lparr>valid = False, platform = None, platform_icon = None\<rparr>"
  using isValidUrl_requires_scheme [of "js ''ftp://youtu.be/abc''"]
  by (simp add: js_def)

section \<open>Properties of the pipeline orchestrator and of the routes\<close>

lemma streamVideo_missing:
  "searchParams_get (searchParams req) (js ''url'') = None \<or>
   searchParams_get (searchParams req) (js ''url'') = Some [] \<Longrightarrow>
   streamVideo e req w = (missing_url_response, w)"
  by (auto simp: streamVideo_def streamVideo_begin_def Let_def)

lemma streamVideo_unsupported:
  "searchParams_get (searchParams req) (js ''url'') = Some u \<Longrightarrow> u \<noteq> [] \<Longrightarrow>
   \<not> valid (isValidUrl u) \<Longrightarrow>
   streamVideo e req w = (unsupported_url_response, w)"
  by (simp add: streamVideo_def streamVideo_begin_def Let_def)

lemma fetch_download:
  "pathname req = js ''/api/download'' \<Longrightarrow> fetch e req w = streamVideo e req w"
  by (simp add: fetch_def js_def)

lemma fetch_legacy:
  "pathname req = js ''/twitter/stream'' \<Longrightarrow> fetch e req w = streamVideo e req w"
  by (simp add: fetch_def js_def)

lemma streamVideo_pathname:
  "streamVideo e (req\<lparr>pathname := a\<rparr>) w = streamVideo e req w"
  by (simp add: streamVideo_def streamVideo_begin_def)

text \<open>
  C5, as amended: a request to the download endpoint whose url parameter is present, not
  empty, and matches no platform pattern is answered with status 400 and a JSON object
  whose \<open>supported\<close> field is the array of all platform names, in the order of the
  configuration; a request with no url parameter, or with an empty one, is answered with
  status 400 and a JSON object with an \<open>error\<close> key.
\<close>

theorem download_validation_errors:
  assumes "pathname req = js ''/api/download''"
  shows "(searchParams_get (searchParams req) (js ''url'') = Some u \<and> u \<noteq> [] \<and>
          (\<forall>p \<in> set SUPPORTED_PLATFORMS. \<not> regex_test (pattern p) u) \<longrightarrow>
            status (fst (fetch e req w)) = 400 \<and>
            (\<exists>fields. body (fst (fetch e req w)) = JsonBody (JObject fields) \<and>
               map_of fields (js ''supported'') =
                 Some (JArray (map (\<lambda>p. JString (name p)) SUPPORTED_PLATFORMS)))) \<and>
         (searchParams_get (searchParams req) (js ''url'') = None \<or>
          searchParams_get (searchParams req) (js ''url'') = Some [] \<longrightarrow>
            status (fst (fetch e req w)) = 400 \<and>
            (\<exists>fields. body (fst (fetch e req w)) = JsonBody (JObject fields) \<and>
               js ''error'' \<in> fst ` set fields))"
proof (intro conjI impI)
  assume a: "searchParams_get (searchParams req) (js ''url'') = Some u \<and> u \<noteq> [] \<and>
          (\<forall>p \<in> set SUPPORTED_PLATFORMS. \<not> regex_test (pattern p) u)"
  then have "\<not> valid (isValidUrl u)"
    by (simp add: isValidUrl_def isValidUrl_from_none)
  with a assms have r: "fetch e req w = (unsupported_url_response, w)"
    by (simp add: fetch_download streamVideo_unsupported)
  show "status (fst (fetch e req w)) = 400"
    by (simp add: r unsupported_url_response_def)
  show "\<exists>fields. body (fst (fetch e req w)) = JsonBody (JObject fields) \<and>
      map_of fields (js ''supported'') =
        Some (JArray (map (\<lambda>p. JString (name p)) SUPPORTED_PLATFORMS))"
    by (simp add: r unsupported_url_response_def js_def)
next
  assume "searchParams_get (searchParams req) (js ''url'') = None \<or>
          searchParams_get (searchParams req) (js ''url'') = Some []"
  with assms have r: "fetch e req w = (missing_url_response, w)"
    by (simp add: fetch_download streamVideo_missing)
  show "status (fst (fetch e req w)) = 400"
    by (simp add: r missing_url_response_def)
  show "\<exists>fields. body (fst (fetch e req w)) = JsonBody (JObject fields) \<and>
      js ''error'' \<in> fst ` set fields"
    by (simp add: r missing_url_response_def)
qed

theorem download_validation_errors_witness:
  "status (fst (fetch quiet_env
       \<lparr>pathname = js ''/api/download'',
        searchParams = [(js ''url'', js ''https://example.com/not-a-platform'')]\<rparr>
       (world initial))) = 400 \<and>
   (\<exists>fields. body (fst (fetch quiet_env
       \<lparr>pathname = js ''/api/download'',
        searchParams = [(js ''url'', js ''https://example.com/not-a-platform'')]\<rparr>
       (world initial))) = JsonBody (JObject fields) \<and>
     map_of fields (js ''supported'') =
       Some (JArray (map (\<lambda>p. JString (name p)) SUPPORTED_PLATFORMS))) \<and>
   status (fst (fetch quiet_env \<lparr>pathname = js ''/api/download'', searchParams = []\<rparr>
       (world initial))) = 400 \<and>
   (\<exists>fields. body (fst (fetch quiet_env \<lparr>pathname = js ''/api/download'', searchParams = []\<rparr>
       (world initial))) = JsonBody (JObject fields) \<and> js ''error'' \<in> fst ` set fields)"
proof -
  let ?u = "js ''https://example.com/not-a-platform''"
  have "list_all (\<lambda>p. \<not> regex_test (pattern p) ?u) SUPPORTED_PLATFORMS"
    by code_simp
  then have none: "\<forall>p \<in> set SUPPORTED_PLATFORMS. \<not> regex_test (pattern p) ?u"
    by (simp only: list_all_iff)
  have ne: "?u \<noteq> []" by (simp add: js_def)
  from none ne
    download_validation_errors [of "\<lparr>pathname = js ''/api/download'', searchParams = [(js ''url'', ?u)]\<rparr>"
      ?u quiet_env "world initial"]
    download_validation_errors [of "\<lparr>pathname = js ''/api/download'', searchParams = []\<rparr>"
      ?u quiet_env "world initial"]
  show ?thesis
    by (simp add: searchParams_get_def)
qed

text \<open>
  C5 as stated fails for \<open>?url=\<close>: the parameter is present and matches no pattern, and
  the body has the \<open>error\<close> key only.
\<close>

theorem empty_url_counterexample:
  "searchParams_get [(js ''url'', [])] (js ''url'') = Some [] \<and>
   list_all (\<lambda>p. \<not> regex_test (pattern p) []) SUPPORTED_PLATFORMS \<and>
   fst (fetch quiet_env \<lparr>pathname = js ''/api/download'', searchParams = [(js ''url'', [])]\<rparr>
     (world initial)) =
     \<lparr>status = 400, headers = [(js ''Content-Type'', js ''application/json'')],
      body = JsonBody (JObject [(js ''error'', JString (js ''Missing url parameter''))])\<rparr>"
proof -
  have "list_all (\<lambda>p. \<not> regex_test (pattern p) []) SUPPORTED_PLATFORMS"
    by code_simp
  moreover have "searchParams_get [(js ''url'', [])] (js ''url'') = Some []"
    by (simp add: searchParams_get_def)
  ultimately show ?thesis
    by (simp add: fetch_download streamVideo_missing missing_url_response_def json_headers_def)
qed

text \<open>
  C8: the routes \<open>/twitter/stream\<close> and \<open>/api/download\<close> give the same response, and
  the same effects, for the same query parameters.
\<close>

theorem legacy_route_alias:
  "fetch e (req\<lparr>pathname := js ''/twitter/stream''\<rparr>) w =
   fetch e (req\<lparr>pathname := js ''/api/download''\<rparr>) w"
  by (simp add: fetch_legacy fetch_download streamVideo_pathname)

lemma download_failed_status: "status (fst (download_failed msg w)) = 500"
  by (simp add: download_failed_def)

lemma streamVideo_resume_status:
  "status (fst (streamVideo_resume e p raw w)) = 200 \<or>
   status (fst (streamVideo_resume e p raw w)) = 500"
  unfolding streamVideo_resume_def Let_def
  by (simp add: download_failed_status split_beta
      split: pending.split option.split sum.split split del: if_split)


lemma streamVideo_begin_400:
  assumes "streamVideo_begin e req w = (Inl r, w')" and "status r = 400"
  shows "w' = w"
proof (cases "searchParams_get (searchParams req) (js ''url'')")
  case None
  with assms show ?thesis by (simp add: streamVideo_begin_def)
next
  case (Some u)
  show ?thesis
  proof (cases "u = [] \<or> \<not> valid (isValidUrl u)")
    case True
    with Some assms show ?thesis
      by (auto simp: streamVideo_begin_def Let_def split: if_splits)
  next
    case False
    with Some assms show ?thesis
      by (cases "spawn e [js ''yt-dlp'', js ''--print'', js ''title'', u] w")
         (auto simp: streamVideo_begin_def Let_def download_failed_def)
  qed
qed

text \<open>
  C9: a request answered with 400 leaves the world as it was: no process is spawned, no
  timer, listener or relay is added and nothing is logged; and a request without a usable
  url parameter, or with an unsupported one, is answered with 400.
\<close>

theorem validation_no_side_effect:
  "(status (fst (streamVideo e req w)) = 400 \<longrightarrow> snd (streamVideo e req w) = w) \<and>
   (searchParams_get (searchParams req) (js ''url'') = None \<or>
    searchParams_get (searchParams req) (js ''url'') = Some [] \<or>
    (\<exists>u. searchParams_get (searchParams req) (js ''url'') = Some u \<and>
         \<not> valid (isValidUrl u)) \<longrightarrow>
      status (fst (streamVideo e req w)) = 400 \<and> snd (streamVideo e req w) = w)"
proof (rule conjI; rule impI)
  assume s: "status (fst (streamVideo e req w)) = 400"
  show "snd (streamVideo e req w) = w"
  proof (cases "streamVideo_begin e req w")
    case (Pair x w')
    show ?thesis
    proof (cases x)
      case (Inl r)
      with Pair s show ?thesis
        by (auto simp: streamVideo_def dest: streamVideo_begin_400)
    next
      case (Inr p)
      obtain u q v t where p: "p = Pending u q v t" by (cases p)
      with Pair Inr have "streamVideo e req w = streamVideo_resume e p (title_result e u) w'"
        by (simp add: streamVideo_def)
      with s streamVideo_resume_status [of e p "title_result e u" w'] show ?thesis
        by simp
    qed
  qed
next
  assume "searchParams_get (searchParams req) (js ''url'') = None \<or>
    searchParams_get (searchParams req) (js ''url'') = Some [] \<or>
    (\<exists>u. searchParams_get (searchParams req) (js ''url'') = Some u \<and>
         \<not> valid (isValidUrl u))"
  then consider
      "searchParams_get (searchParams req) (js ''url'') = None \<or>
       searchParams_get (searchParams req) (js ''url'') = Some []"
    | u where "searchParams_get (searchParams req) (js ''url'') = Some u" "u \<noteq> []"
        "\<not> valid (isValidUrl u)"
    by blast
  then have "streamVideo e req w = (missing_url_response, w) \<or>
      streamVideo e req w = (unsupported_url_response, w)"
    by cases (simp_all add: streamVideo_missing streamVideo_unsupported)
  then show "status (fst (streamVideo e req w)) = 400 \<and> snd (streamVideo e req w) = w"
    by (auto simp: missing_url_response_def unsupported_url_response_def)
qed

theorem validation_no_side_effect_witness:
  "status (fst (streamVideo quiet_env
       \<lparr>pathname = js ''/api/download'', searchParams = [(js ''url'', js ''file:///etc/passwd'')]\<rparr>
       (world initial))) = 400 \<and>
   snd (streamVideo quiet_env
       \<lparr>pathname = js ''/api/download'', searchParams = [(js ''url'', js ''file:///etc/passwd'')]\<rparr>
       (world initial)) = world initial"
proof -
  let ?u = "js ''file:///etc/passwd''"
  have "\<not> valid (isValidUrl ?u)"
    by code_simp
  with validation_no_side_effect [of quiet_env
      "\<lparr>pathname = js ''/api/download'', searchParams = [(js ''url'', ?u)]\<rparr>" "world initial"]
  show ?thesis
    by (simp add: searchParams_get_def)
qed

section \<open>Properties of the lifecycle\<close>

lemma map_update_same: "(map f xs)[i := f (xs ! i)] = map f xs"
  by (cases "i < length xs") (simp_all add: list_eq_iff_nth_eq nth_list_update)

lemma resume_shape:
  assumes "streamVideo_resume e p raw w = (r, w')"
  shows "map cmd (take (length (procs w)) (procs w')) = map cmd (procs w) \<and>
     (drop (length (procs w)) (procs w') = [] \<and> abort_listeners w' = abort_listeners w \<or>
      (\<exists>d. drop (length (procs w)) (procs w') = [d] \<and> is_downloader d \<and>
         abort_listeners w' = abort_listeners w) \<or>
      (\<exists>d t. drop (length (procs w)) (procs w') = [d, t] \<and>
         abort_listeners w' =
           abort_listeners w @ [[Suc (length (procs w)), length (procs w)]]))"
  using assms unfolding streamVideo_resume_def Let_def spawn_def download_failed_def log_def
  by (auto simp: split_beta map_update map_update_same is_downloader_def
      split: pending.splits option.splits sum.splits)

lemma title_probe_not_media:
  "\<not> media \<lparr>cmd = [js ''yt-dlp'', js ''--print'', js ''title'', u], killed = k, exited = x\<rparr>"
  by (simp add: media_def is_downloader_def is_transcoder_def js_def)

lemma begin_shape:
  assumes "streamVideo_begin e req w = (x, w')"
  shows "case x of
           Inl r \<Rightarrow> procs w' = procs w
         | Inr p \<Rightarrow> (\<exists>t. procs w' = procs w @ [t] \<and> \<not> media t)"
  using assms unfolding streamVideo_begin_def Let_def spawn_def download_failed_def log_def
  by (auto simp: title_probe_not_media split: option.splits sum.splits if_splits)

lemma downloader_not_transcoder: "is_downloader d \<Longrightarrow> \<not> is_transcoder d"
  by (cases "cmd d") (auto simp: is_downloader_def is_transcoder_def js_def)

subsection \<open>Changes of flags\<close>

lemma flags_only_refl: "flags_only w w"
  by (simp add: flags_only_def)

lemma flags_only_length: "flags_only w w' \<Longrightarrow> length (procs w') = length (procs w)"
  by (auto simp: flags_only_def dest: arg_cong [where f = length])

lemma flags_only_trans: "flags_only a b \<Longrightarrow> flags_only b c \<Longrightarrow> flags_only a c"
  using flags_only_length [of a b] by (auto simp: flags_only_def)

lemma flags_only_cmd:
  assumes "flags_only w w'" and "k < length (procs w)"
  shows "cmd (procs w' ! k) = cmd (procs w ! k)"
proof -
  from assms(1) have "map cmd (procs w') ! k = map cmd (procs w) ! k"
    by (simp add: flags_only_def)
  with assms flags_only_length [OF assms(1)] show ?thesis by simp
qed

lemma flags_only_media:
  "flags_only w w' \<Longrightarrow> k < length (procs w) \<Longrightarrow> media (procs w' ! k) = media (procs w ! k)"
  "flags_only w w' \<Longrightarrow> k < length (procs w) \<Longrightarrow>
     is_transcoder (procs w' ! k) = is_transcoder (procs w ! k)"
  by (simp_all add: media_def is_downloader_def is_transcoder_def flags_only_cmd)

lemma killed_update:
  "k < length ps \<Longrightarrow> killed (ps[h := (ps ! h)\<lparr>killed := True\<rparr>] ! k) \<longleftrightarrow> k = h \<or> killed (ps ! k)"
  by (cases "h = k") auto

lemma flags_only_kill: "flags_only w (kill h w)"
  by (simp add: flags_only_def kill_def map_update map_update_same killed_update)

lemma flags_only_log: "flags_only w (log x w)"
  by (simp add: flags_only_def log_def)

lemma flags_only_fold_kill: "flags_only w (fold kill hs w)"
proof (induction hs arbitrary: w)
  case Nil
  show ?case by (simp add: flags_only_refl)
next
  case (Cons h hs)
  show ?case
    using flags_only_trans [OF flags_only_kill Cons.IH] by simp
qed

lemma flags_only_run_listener: "flags_only w (run_listener hs w)"
  unfolding run_listener_def
  by (rule flags_only_trans [OF flags_only_log flags_only_fold_kill])

lemma flags_only_fold_run_listener: "flags_only w (fold run_listener ls w)"
proof (induction ls arbitrary: w)
  case Nil
  show ?case by (simp add: flags_only_refl)
next
  case (Cons l ls)
  show ?case
    using flags_only_trans [OF flags_only_run_listener Cons.IH] by simp
qed

lemma flags_only_fire_abort: "flags_only w (fire_abort w)"
proof -
  have "flags_only w (w\<lparr>aborted := True\<rparr>)"
    by (simp add: flags_only_def)
  then show ?thesis
    unfolding fire_abort_def by (rule flags_only_trans [OF _ flags_only_fold_run_listener])
qed

lemma flags_only_killed:
  "flags_only w w' \<Longrightarrow> k < length (procs w) \<Longrightarrow> killed (procs w ! k) \<Longrightarrow>
   killed (procs w' ! k)"
  by (simp add: flags_only_def)

subsection \<open>What the abort kills\<close>

lemma fold_kill_kills:
  "k \<in> set hs \<Longrightarrow> k < length (procs w) \<Longrightarrow> killed (procs (fold kill hs w) ! k)"
proof (induction hs arbitrary: w)
  case Nil
  then show ?case by simp
next
  case (Cons h hs)
  have len: "length (procs (kill h w)) = length (procs w)"
    by (simp add: kill_def)
  show ?case
  proof (cases "k = h")
    case True
    with Cons.prems have "killed (procs (kill h w) ! k)"
      by (simp add: kill_def killed_update)
    with flags_only_fold_kill [of "kill h w" hs] Cons.prems len show ?thesis
      by (simp add: flags_only_killed)
  next
    case False
    with Cons.prems len Cons.IH [of "kill h w"] show ?thesis by simp
  qed
qed

lemma run_listener_kills:
  "k \<in> set l \<Longrightarrow> k < length (procs w) \<Longrightarrow> killed (procs (run_listener l w) ! k)"
  unfolding run_listener_def by (rule fold_kill_kills) (simp_all add: log_def)

lemma fold_run_listener_kills:
  "l \<in> set ls \<Longrightarrow> k \<in> set l \<Longrightarrow> k < length (procs w) \<Longrightarrow>
   killed (procs (fold run_listener ls w) ! k)"
proof (induction ls arbitrary: w)
  case Nil
  then show ?case by simp
next
  case (Cons a ls)
  have len: "length (procs (run_listener a w)) = length (procs w)"
    using flags_only_length [OF flags_only_run_listener] .
  show ?case
  proof (cases "l = a")
    case True
    with Cons.prems have "killed (procs (run_listener a w) ! k)"
      by (simp add: run_listener_kills)
    with flags_only_fold_run_listener [of "run_listener a w" ls] Cons.prems len show ?thesis
      by (simp add: flags_only_killed)
  next
    case False
    with Cons.prems len Cons.IH [of "run_listener a w"] show ?thesis by simp
  qed
qed

lemma fire_abort_kills:
  "l \<in> set (abort_listeners w) \<Longrightarrow> k \<in> set l \<Longrightarrow> k < length (procs w) \<Longrightarrow>
   killed (procs (fire_abort w) ! k)"
  unfolding fire_abort_def by (rule fold_run_listener_kills) simp_all

subsection \<open>The steps that are not the handler's\<close>

lemma flags_only_exited:
  "flags_only w (w\<lparr>procs := (procs w)[h := (procs w ! h)\<lparr>exited := True\<rparr>]\<rparr>)"
proof -
  have "killed ((procs w)[h := (procs w ! h)\<lparr>exited := True\<rparr>] ! k) = killed (procs w ! k)"
    if "k < length (procs w)" for k
    using that by (cases "h = k") auto
  then show ?thesis
    by (simp add: flags_only_def map_update map_update_same)
qed

lemma step_flags_only:
  assumes "step e s ev = Some s'"
    and "\<And>req. ev \<noteq> Call req" and "\<And>raw. ev \<noteq> TitleSettled raw"
  shows "phase s' = phase s \<and> flags_only (world s) (world s')"
proof (cases ev)
  case (Call req)
  with assms(2) [of req] show ?thesis by simp
next
  case (TitleSettled raw)
  with assms(3) [of raw] show ?thesis by simp
next
  case (TimerFires h)
  have "flags_only (world s) ((world s)\<lparr>timers := removeAll h (timers (world s))\<rparr>)"
    by (simp add: flags_only_def)
  from flags_only_trans [OF this flags_only_kill] TimerFires assms(1) show ?thesis
    by (auto split: if_splits)
next
  case (ProcExits h)
  with assms(1) flags_only_exited show ?thesis
    by (auto split: if_splits)
next
  case ClientAborts
  with assms(1) flags_only_fire_abort show ?thesis
    by (auto split: if_splits)
next
  case (PipeFails src dst)
  let ?w = "(world s)\<lparr>pipes := removeAll (src, dst) (pipes (world s))\<rparr>"
  have "flags_only (world s) ?w"
    by (simp add: flags_only_def)
  then have "flags_only (world s) (kill src (kill dst (log PipeFailed ?w)))"
    by (blast intro: flags_only_trans flags_only_log flags_only_kill)
  with PipeFails assms(1) show ?thesis
    by (auto split: if_splits)
next
  case (PipeEnds src dst)
  have "flags_only (world s) ((world s)\<lparr>pipes := removeAll (src, dst) (pipes (world s))\<rparr>)"
    by (simp add: flags_only_def)
  with PipeEnds assms(1) show ?thesis
    by (auto split: if_splits)
qed

subsection \<open>The invariant\<close>

lemma inv_initial: "inv initial"
  by (simp add: inv_def initial_def)

lemma inv_flags_only:
  assumes "inv s" and "phase s' = phase s" and "flags_only (world s) (world s')"
  shows "inv s'"
proof (cases "phase s")
  case Idle
  with assms(1) have "procs (world s) = []" by (simp add: inv_def)
  with flags_only_length [OF assms(3)] Idle assms(2) show ?thesis
    by (simp add: inv_def)
next
  case (Probing p)
  with assms(1) have none: "\<forall>q \<in> set (procs (world s)). \<not> media q" by (simp add: inv_def)
  have "\<not> media q" if "q \<in> set (procs (world s'))" for q
  proof -
    from that obtain k where k: "k < length (procs (world s'))" "q = procs (world s') ! k"
      by (auto simp: in_set_conv_nth)
    with flags_only_length [OF assms(3)] have "k < length (procs (world s))" by simp
    with none flags_only_media(1) [OF assms(3)] k show ?thesis by simp
  qed
  with Probing assms(2) show ?thesis by (simp add: inv_def)
next
  case (Responded r)
  have len: "length (procs (world s')) = length (procs (world s))"
    by (rule flags_only_length [OF assms(3)])
  have ls: "abort_listeners (world s') = abort_listeners (world s)"
    using assms(3) by (simp add: flags_only_def)
  have "covered (world s')" if t: "list_ex is_transcoder (procs (world s'))"
  proof -
    from t obtain k where k: "k < length (procs (world s'))" "is_transcoder (procs (world s') ! k)"
      by (auto simp: list_ex_iff in_set_conv_nth)
    with len flags_only_media(2) [OF assms(3), of k]
    have "k < length (procs (world s))" "is_transcoder (procs (world s) ! k)"
      by simp_all
    then have "list_ex is_transcoder (procs (world s))"
      unfolding list_ex_iff using nth_mem by blast
    with assms(1) Responded have "covered (world s)" by (simp add: inv_def)
    with len ls flags_only_media(1) [OF assms(3)] show ?thesis
      by (simp add: covered_def)
  qed
  with Responded assms(2) show ?thesis by (simp add: inv_def)
qed

lemma inv_call:
  assumes "inv s" and "step e s (Call req) = Some s'"
  shows "inv s'"
proof (cases "phase s")
  case Idle
  with assms(1) have empty: "procs (world s) = []" by (simp add: inv_def)
  obtain x w' where b: "streamVideo_begin e req (world s) = (x, w')"
    by (cases "streamVideo_begin e req (world s)")
  show ?thesis
  proof (cases x)
    case (Inl r)
    with b begin_shape [OF b] empty Idle assms(2) show ?thesis
      by (auto simp: inv_def)
  next
    case (Inr p)
    with b begin_shape [OF b] empty Idle assms(2) show ?thesis
      by (auto simp: inv_def)
  qed
next
  case (Probing p)
  with assms(2) show ?thesis by simp
next
  case (Responded r)
  with assms(2) show ?thesis by simp
qed

lemma inv_title_settled:
  assumes "inv s" and "step e s (TitleSettled raw) = Some s'"
  shows "inv s'"
proof (cases "phase s")
  case Idle
  with assms(2) show ?thesis by simp
next
  case (Responded r)
  with assms(2) show ?thesis by simp
next
  case (Probing p)
  let ?w = "world s"
  let ?n = "length (procs ?w)"
  from assms(1) Probing have none: "\<forall>q \<in> set (procs ?w). \<not> media q" by (simp add: inv_def)
  obtain r w' where res: "streamVideo_resume e p raw ?w = (r, w')"
    by (cases "streamVideo_resume e p raw ?w")
  with Probing assms(2) have s': "s' = \<lparr>world = w', phase = Responded r\<rparr>" by auto
  note shape = resume_shape [OF res]
  have old: "\<not> media (procs w' ! k) \<and> \<not> is_transcoder (procs w' ! k)"
    if "k < ?n" "k < length (procs w')" for k
  proof -
    from shape have "map cmd (take ?n (procs w')) ! k = map cmd (procs ?w) ! k" by simp
    with that have "cmd (procs w' ! k) = cmd (procs ?w ! k)" by simp
    then have "media (procs w' ! k) = media (procs ?w ! k)"
      by (simp add: media_def is_downloader_def is_transcoder_def)
    with none that show ?thesis by (auto simp: media_def)
  qed
  have "covered w'" if t: "list_ex is_transcoder (procs w')"
  proof -
    from t obtain j where j: "j < length (procs w')" "is_transcoder (procs w' ! j)"
      by (auto simp: list_ex_iff in_set_conv_nth)
    with old have jn: "?n \<le> j" by (meson not_le)
    define new where "new = drop ?n (procs w')"
    from j jn have dj: "is_transcoder (new ! (j - ?n))" "j - ?n < length new"
      by (simp_all add: new_def)
    from shape consider "new = []"
      | d where "new = [d]" "is_downloader d"
      | d t where "new = [d, t]" "abort_listeners w' = abort_listeners ?w @ [[Suc ?n, ?n]]"
      unfolding new_def by blast
    then obtain d t where two: "new = [d, t]"
      and ls: "abort_listeners w' = abort_listeners ?w @ [[Suc ?n, ?n]]"
    proof cases
      case 1
      with dj show ?thesis by simp
    next
      case (2 d)
      with dj have "is_transcoder d" by simp
      with 2 downloader_not_transcoder show ?thesis by blast
    next
      case (3 d t)
      with that show ?thesis by blast
    qed
    from two have "length new = 2" by simp
    with jn j have len: "length (procs w') = ?n + 2" by (simp add: new_def)
    show ?thesis
      unfolding covered_def
    proof (intro allI impI)
      fix k assume k: "k < length (procs w')" "media (procs w' ! k)"
      with old have "?n \<le> k" by (meson not_le)
      with k len have "k = ?n \<or> k = Suc ?n" by arith
      with ls show "\<exists>l \<in> set (abort_listeners w'). k \<in> set l" by auto
    qed
  qed
  with s' show ?thesis by (simp add: inv_def)
qed

lemma inv_step:
  assumes "inv s" and "step e s ev = Some s'"
  shows "inv s'"
proof (cases "(\<exists>req. ev = Call req) \<or> (\<exists>raw. ev = TitleSettled raw)")
  case True
  with assms show ?thesis by (auto intro: inv_call inv_title_settled)
next
  case False
  with step_flags_only [OF assms(2)] inv_flags_only [OF assms(1)] show ?thesis by blast
qed

lemma inv_run: "inv s \<Longrightarrow> run e s evs = Some s' \<Longrightarrow> inv s'"
proof (induction evs arbitrary: s)
  case Nil
  then show ?case by simp
next
  case (Cons ev evs)
  then show ?case
    by (auto split: option.splits dest: inv_step)
qed

subsection \<open>After the abort\<close>

lemma all_killed_step:
  assumes "all_killed s" and "step e s ev = Some s'"
  shows "all_killed s'"
proof -
  from assms(1) obtain r where r: "phase s = Responded r" by (auto simp: all_killed_def)
  with assms(2) have "\<And>req. ev \<noteq> Call req" "\<And>raw. ev \<noteq> TitleSettled raw" by auto
  from step_flags_only [OF assms(2) this]
  have ph: "phase s' = phase s" and fl: "flags_only (world s) (world s')" by simp_all
  have "killed p" if "p \<in> set (procs (world s'))" "media p" for p
  proof -
    from that(1) obtain k where k: "k < length (procs (world s'))" "p = procs (world s') ! k"
      by (auto simp: in_set_conv_nth)
    with flags_only_length [OF fl] have kl: "k < length (procs (world s))" by simp
    with that(2) k flags_only_media(1) [OF fl] have "media (procs (world s) ! k)" by simp
    with assms(1) kl have "killed (procs (world s) ! k)" by (simp add: all_killed_def)
    with flags_only_killed [OF fl kl] k show ?thesis by simp
  qed
  with ph r show ?thesis by (simp add: all_killed_def)
qed

lemma all_killed_run: "all_killed s \<Longrightarrow> run e s evs = Some s' \<Longrightarrow> all_killed s'"
proof (induction evs arbitrary: s)
  case Nil
  then show ?case by simp
next
  case (Cons ev evs)
  then show ?case
    by (auto split: option.splits dest: all_killed_step)
qed

lemma abort_all_killed:
  assumes "inv s" and "list_ex is_transcoder (procs (world s))"
  shows "all_killed (s\<lparr>world := fire_abort (world s)\<rparr>)"
proof -
  let ?w = "world s"
  from assms(2) obtain j where j: "j < length (procs ?w)" "is_transcoder (procs ?w ! j)"
    by (auto simp: list_ex_iff in_set_conv_nth)
  then have m: "media (procs ?w ! j)" "procs ?w ! j \<in> set (procs ?w)"
    by (simp_all add: media_def)
  with assms(1) j obtain r where r: "phase s = Responded r"
    by (cases "phase s") (auto simp: inv_def)
  with assms have cov: "covered ?w" by (simp add: inv_def)
  note fl = flags_only_fire_abort [of ?w]
  have "killed p" if "p \<in> set (procs (fire_abort ?w))" "media p" for p
  proof -
    from that(1) obtain k where k: "k < length (procs (fire_abort ?w))" "p = procs (fire_abort ?w) ! k"
      by (auto simp: in_set_conv_nth)
    with flags_only_length [OF fl] have kl: "k < length (procs ?w)" by simp
    with that(2) k flags_only_media(1) [OF fl] have "media (procs ?w ! k)" by simp
    with cov kl obtain l where "l \<in> set (abort_listeners ?w)" "k \<in> set l"
      by (auto simp: covered_def)
    with kl k show ?thesis by (simp add: fire_abort_kills)
  qed
  with r show ?thesis by (simp add: all_killed_def)
qed

lemma responded_run:
  "phase s = Responded r \<Longrightarrow> run e s evs = Some s' \<Longrightarrow>
   phase s' = Responded r \<and> flags_only (world s) (world s')"
proof (induction evs arbitrary: s)
  case Nil
  then show ?case by (simp add: flags_only_refl)
next
  case (Cons ev evs)
  from Cons.prems obtain t where t: "step e s ev = Some t" "run e t evs = Some s'"
    by (auto split: option.splits)
  from Cons.prems(1) t(1) have "\<And>req. ev \<noteq> Call req" "\<And>raw. ev \<noteq> TitleSettled raw"
    by auto
  from step_flags_only [OF t(1) this] Cons.prems(1)
  have "phase t = Responded r" and f: "flags_only (world s) (world t)" by simp_all
  with Cons.IH [OF _ t(2)] have "phase s' = Responded r" "flags_only (world t) (world s')"
    by simp_all
  with f show ?case by (blast intro: flags_only_trans)
qed

lemma list_ex_cmd:
  "list_ex is_downloader ps \<longleftrightarrow> (\<exists>c \<in> set (map cmd ps). take 2 c = [js ''yt-dlp'', js ''-f''])"
  "list_ex is_transcoder ps \<longleftrightarrow> (\<exists>c \<in> set (map cmd ps). take 1 c = [js ''ffmpeg''])"
  by (auto simp: list_ex_iff is_downloader_def is_transcoder_def)

text \<open>
  C2: when the request is aborted in a state in which the downloader and the transcoder
  have been spawned, then in every state of the lifecycle from the abort on, the two
  processes are there and \<open>kill()\<close> has been called on every downloader and transcoder
  process.
\<close>

theorem abort_kills_both:
  assumes "run e initial evs = Some s"
    and "list_ex is_downloader (procs (world s))"
    and "list_ex is_transcoder (procs (world s))"
    and "run e s (ClientAborts # evs') = Some s'"
  shows "list_ex is_downloader (procs (world s')) \<and> list_ex is_transcoder (procs (world s')) \<and>
    (\<forall>p \<in> set (procs (world s')). is_downloader p \<or> is_transcoder p \<longrightarrow> killed p)"
proof -
  let ?a = "s\<lparr>world := fire_abort (world s)\<rparr>"
  from inv_run [OF inv_initial assms(1)] have "inv s" .
  then have a: "all_killed ?a"
    using assms(3) by (rule abort_all_killed)
  from assms(4) have r: "run e ?a evs' = Some s'"
    by (auto split: if_splits option.splits)
  with a have "all_killed s'" by (rule all_killed_run)
  then have k: "\<forall>p \<in> set (procs (world s')). is_downloader p \<or> is_transcoder p \<longrightarrow> killed p"
    by (simp add: all_killed_def media_def)
  from a obtain x where "phase ?a = Responded x" by (auto simp: all_killed_def)
  from responded_run [OF this r] have "flags_only (world ?a) (world s')" by simp
  with flags_only_fire_abort [of "world s"] have "flags_only (world s) (world s')"
    by (auto intro: flags_only_trans)
  then have "map cmd (procs (world s')) = map cmd (procs (world s))"
    by (simp add: flags_only_def)
  with assms(2,3) have "list_ex is_downloader (procs (world s'))"
    "list_ex is_transcoder (procs (world s'))"
    by (simp_all only: list_ex_cmd)
  with k show ?thesis by blast
qed

theorem abort_kills_both_witness:
  "run quiet_env initial [Call youtube_request, TitleSettled (Some [])] \<noteq> None \<and>
   list_ex is_downloader
     (procs (world (the (run quiet_env initial [Call youtube_request, TitleSettled (Some [])])))) \<and>
   list_ex is_transcoder
     (procs (world (the (run quiet_env initial [Call youtube_request, TitleSettled (Some [])])))) \<and>
   run quiet_env (the (run quiet_env initial [Call youtube_request, TitleSettled (Some [])]))
     [ClientAborts, ProcExits 2, PipeEnds 1 2] \<noteq> None \<and>
   list_all (\<lambda>p. (is_downloader p \<or> is_transcoder p) \<longrightarrow> killed p)
     (procs (world (the
       (run quiet_env (the (run quiet_env initial [Call youtube_request, TitleSettled (Some [])]))
         [ClientAborts, ProcExits 2, PipeEnds 1 2]))))"
proof -
  let ?evs = "[Call youtube_request, TitleSettled (Some [])]"
  let ?s = "the (run quiet_env initial ?evs)"
  let ?evs' = "[ProcExits 2, PipeEnds 1 2]"
  let ?s' = "the (run quiet_env ?s (ClientAborts # ?evs'))"
  have a: "run quiet_env initial ?evs \<noteq> None"
    by code_simp
  have b: "list_ex is_downloader (procs (world ?s))"
    by code_simp
  have c: "list_ex is_transcoder (procs (world ?s))"
    by code_simp
  have d: "run quiet_env ?s (ClientAborts # ?evs') \<noteq> None"
    by code_simp
  from a have a': "run quiet_env initial ?evs = Some ?s" by simp
  from d have d': "run quiet_env ?s (ClientAborts # ?evs') = Some ?s'" by simp
  from abort_kills_both [OF a' b c d']
  have "\<forall>p \<in> set (procs (world ?s')). is_downloader p \<or> is_transcoder p \<longrightarrow> killed p"
    by blast
  then have "list_all (\<lambda>p. (is_downloader p \<or> is_transcoder p) \<longrightarrow> killed p) (procs (world ?s'))"
    by (simp only: list_all_iff)
  with a b c d show ?thesis by blast
qed

text \<open>
  The listener is registered when the two processes are spawned, and the signal fires
  once: an abort while the title is awaited finds no listener, and the processes spawned
  afterwards are not killed by it.
\<close>

lemma abort_while_probing_kills_nothing:
  "map_option (\<lambda>s. map (\<lambda>p. (is_downloader p, is_transcoder p, killed p)) (procs (world s)))
     (run quiet_env initial [Call youtube_request, ClientAborts, TitleSettled (Some [])]) =
   Some [(False, False, False), (True, False, False), (False, True, False)]"
  by code_simp

end
